theory Spec2Isabelle
  imports Main "HOL-Library.Word"
begin

section \<open>Version comparison of osquery's SQLite extension (sqlite\_version.cpp)\<close>

text \<open>
  A version string is a \<open>std::string_view\<close> over \<open>char\<close>: a byte sequence with its
  length. It is modelled as a \<open>string\<close> (a list of 8-bit \<open>char\<close>s), whose length is
  the \<open>l_len\<close> or \<open>r_len\<close> that \<open>versionCompare\<close> receives beside the pointer.

  Two properties of the C++ types are written out:
  \<^item> whether plain \<open>char\<close> is signed is fixed by the platform ABI, not by the source, so
    the conversion \<open>int(c)\<close> takes it as the parameter \<open>char_signed\<close>;
  \<^item> a difference of two \<open>size_t\<close> values returned as \<open>int\<close> keeps the low 32 bits
    (\<open>to_int\<close>). The lengths arrive as \<open>int\<close>, so they are below \<open>2 ^ 31\<close>, and
    there the conversion is the plain difference (lemma \<open>size_diff_eq\<close>).
  Reading \<open>s[i]\<close> past the end of a view is undefined in C++; in the model it is the
  value \<open>None\<close> of \<open>at\<close>, which every function passes on.
\<close>

subsection \<open>Characters, conversions and indexing\<close>

definition char_to_int :: "bool \<Rightarrow> char \<Rightarrow> int" where
  "char_to_int char_signed c =
     (if char_signed then sint (of_char c :: 8 word) else of_char c)"

definition to_int :: "int \<Rightarrow> int" where
  "to_int x = sint (word_of_int x :: 32 word)"

definition size_diff :: "nat \<Rightarrow> nat \<Rightarrow> int" where
  "size_diff a b = to_int (int a - int b)"

definition at :: "string \<Rightarrow> nat \<Rightarrow> char option" where
  "at s i = (if i < length s then Some (s ! i) else None)"

text \<open>\<open>isdigit\<close> of the C library in the C locale, on the \<open>int\<close> that a \<open>char\<close>
  converts to: true on \<open>'0'\<close> .. \<open>'9'\<close> only, so false on every byte of 0x80 or above,
  whether \<open>char\<close> is signed or not.\<close>

definition isdigit :: "int \<Rightarrow> bool" where
  "isdigit x = (48 \<le> x \<and> x \<le> 57)"

text \<open>\<open>std::string_view::find\<close> of a one-character pattern: the first position of the
  character, \<open>None\<close> for \<open>npos\<close>.\<close>

fun find_first :: "string \<Rightarrow> char \<Rightarrow> nat option" where
  "find_first [] c = None"
| "find_first (x # xs) c = (if x = c then Some 0 else map_option Suc (find_first xs c))"

text \<open>What leaves a block of statements: a \<open>return\<close> with its value, control that
  falls through to the next statement (with the state it carries), or an out-of-range
  read.\<close>

datatype 'a flow = Return int | Continue 'a | Out_of_range

subsection \<open>compareEpoch\<close>

definition compareEpoch :: "string \<Rightarrow> string \<Rightarrow> int" where
  "compareEpoch l_ver r_ver =
     (case (find_first l_ver CHR '':'', find_first r_ver CHR '':'') of
        (Some l_epoch, Some r_epoch) \<Rightarrow> size_diff l_epoch r_epoch
      | (Some l_epoch, None) \<Rightarrow> 1
      | (None, Some r_epoch) \<Rightarrow> - 1
      | (None, None) \<Rightarrow> 0)"

subsection \<open>delimiterPrecedence\<close>

definition delimiterPrecedence :: "char \<Rightarrow> int" where
  "delimiterPrecedence c =
     (if c = CHR ''~'' then 1
      else if c = CHR ''-'' then 2
      else if c = CHR ''^'' then 3
      else if c = CHR ''.'' then 4
      else if c = CHR '':'' then 5
      else 0)"

subsection \<open>compareRemainder\<close>

text \<open>\<open>isdigit(ver[pos - 1])\<close>: \<open>pos\<close> is a \<open>size_t\<close>, so at \<open>pos = 0\<close> the index
  wraps to the largest value and the read is out of range.\<close>

definition digit_before :: "bool \<Rightarrow> string \<Rightarrow> nat \<Rightarrow> bool option" where
  "digit_before char_signed ver pos =
     (if pos = 0 then None
      else map_option (\<lambda>c. isdigit (char_to_int char_signed c)) (at ver (pos - 1)))"

text \<open>The block \<open>if (l_ver.size() == pos) { switch (r_ver[pos]) ... }\<close>.\<close>

definition remainder_left_short ::
  "bool \<Rightarrow> string \<Rightarrow> string \<Rightarrow> nat \<Rightarrow> int \<Rightarrow> bool \<Rightarrow> unit flow" where
  "remainder_left_short char_signed l_ver r_ver pos diff remainder_precedence =
     (if length l_ver = pos then
        (case at r_ver pos of
           None \<Rightarrow> Out_of_range
         | Some c \<Rightarrow>
             if c = CHR ''~'' then Return 1
             else if c = CHR ''-'' then Return 0
             else if c = CHR ''^'' then Return (- 1)
             else if diff \<noteq> 0 then
               (if \<not> remainder_precedence then Return diff
                else (case digit_before char_signed l_ver pos of
                        None \<Rightarrow> Out_of_range
                      | Some d \<Rightarrow> if \<not> d then Return diff else Continue ()))
             else Continue ())
      else Continue ())"

text \<open>The block \<open>if (r_ver.size() == pos) { switch (l_ver[pos]) ... }\<close>.\<close>

definition remainder_right_short ::
  "bool \<Rightarrow> string \<Rightarrow> string \<Rightarrow> nat \<Rightarrow> int \<Rightarrow> bool \<Rightarrow> unit flow" where
  "remainder_right_short char_signed l_ver r_ver pos diff remainder_precedence =
     (if length r_ver = pos then
        (case at l_ver pos of
           None \<Rightarrow> Out_of_range
         | Some c \<Rightarrow>
             if c = CHR ''~'' then Return (- 1)
             else if c = CHR ''-'' then Return 0
             else if c = CHR ''^'' then Return 1
             else if diff \<noteq> 0 then
               (if \<not> remainder_precedence then Return diff
                else (case digit_before char_signed r_ver pos of
                        None \<Rightarrow> Out_of_range
                      | Some d \<Rightarrow> if \<not> d then Return diff else Continue ()))
             else Continue ())
      else Continue ())"

definition compareRemainder ::
  "bool \<Rightarrow> string \<Rightarrow> string \<Rightarrow> nat \<Rightarrow> int \<Rightarrow> bool \<Rightarrow> bool \<Rightarrow> int option" where
  "compareRemainder char_signed l_ver r_ver pos diff comp_remaining remainder_precedence =
     (if comp_remaining then
        (case remainder_left_short char_signed l_ver r_ver pos diff remainder_precedence of
           Return v \<Rightarrow> Some v
         | Out_of_range \<Rightarrow> None
         | Continue _ \<Rightarrow>
             (case remainder_right_short char_signed l_ver r_ver pos diff
                     remainder_precedence of
                Return v \<Rightarrow> Some v
              | Out_of_range \<Rightarrow> None
              | Continue _ \<Rightarrow> Some (size_diff (length l_ver) (length r_ver))))
      else Some (size_diff (length l_ver) (length r_ver)))"

subsection \<open>versionCompare\<close>

text \<open>The \<open>for\<close> loop of \<open>versionCompare\<close>, from position \<open>i\<close> with the pending
  \<open>first_diff\<close>; \<open>Continue\<close> carries \<open>first_diff\<close> out of the loop.\<close>

function versionCompare_loop ::
  "bool \<Rightarrow> bool \<Rightarrow> string \<Rightarrow> string \<Rightarrow> nat \<Rightarrow> nat \<Rightarrow> int \<Rightarrow> int flow" where
  "versionCompare_loop char_signed delim_precedence l_ver r_ver min_len i first_diff =
     (if i < min_len then
        (case (at l_ver i, at r_ver i) of
           (Some lc, Some rc) \<Rightarrow>
             if delimiterPrecedence lc = 0 \<and> delimiterPrecedence rc = 0 then
               versionCompare_loop char_signed delim_precedence l_ver r_ver min_len (i + 1)
                 (if first_diff = 0 then char_to_int char_signed lc - char_to_int char_signed rc
                  else first_diff)
             else if delimiterPrecedence lc = 0 then Return 1
             else if delimiterPrecedence rc = 0 then Return (- 1)
             else if first_diff \<noteq> 0 then Return first_diff
             else if delim_precedence \<and> delimiterPrecedence lc - delimiterPrecedence rc \<noteq> 0
               then Return (delimiterPrecedence lc - delimiterPrecedence rc)
             else versionCompare_loop char_signed delim_precedence l_ver r_ver min_len (i + 1)
                    first_diff
         | _ \<Rightarrow> Out_of_range)
      else Continue first_diff)"
  by pat_completeness auto
termination
  by (relation "measure (\<lambda>(cs, dp, l, r, min_len, i, fd). min_len - i)") auto

definition versionCompare ::
  "bool \<Rightarrow> string \<Rightarrow> string \<Rightarrow> bool \<Rightarrow> bool \<Rightarrow> bool \<Rightarrow> bool \<Rightarrow> int option" where
  "versionCompare char_signed l_ver r_ver epoch delim_precedence comp_remaining
       remainder_precedence =
     (if length l_ver = 0 \<and> length r_ver = 0 then Some 0
      else if length l_ver = 0 then Some (- 1)
      else if length r_ver = 0 then Some 1
      else if l_ver = r_ver then Some 0
      else if epoch \<and> compareEpoch l_ver r_ver \<noteq> 0 then Some (compareEpoch l_ver r_ver)
      else
        (case versionCompare_loop char_signed delim_precedence l_ver r_ver
                (min (length l_ver) (length r_ver)) 0 0 of
           Return v \<Rightarrow> Some v
         | Out_of_range \<Rightarrow> None
         | Continue first_diff \<Rightarrow>
             if length l_ver = length r_ver then Some first_diff
             else compareRemainder char_signed l_ver r_ver
                    (min (length l_ver) (length r_ver)) first_diff comp_remaining
                    remainder_precedence))"

subsection \<open>The SQL binding: versionCompareFunc and the collations\<close>

text \<open>
  An argument of the SQL function is an \<open>sqlite3_value\<close> of one of SQLite's five
  types. The code asks a value for its type, reads a text value through
  \<open>sqlite3_value_text\<close> as a NUL-terminated C string, and reads an option through
  \<open>sqlite3_value_int\<close>, which keeps the low 32 bits of an integer and is 0 on NULL.
  The code reports through the context either an error message or an integer.
\<close>

datatype sqlite3_value =
    Integer_value "64 word"
  | Float_value "64 word"
  | Text_value string
  | Blob_value string
  | Null_value

datatype sqlite3_result = Result_error string | Result_int int

text \<open>The bytes a \<open>const char*\<close> reader sees: those before the first NUL.\<close>

definition c_str :: "string \<Rightarrow> string" where
  "c_str s = takeWhile (\<lambda>c. c \<noteq> CHR 0x00) s"

text \<open>\<open>s[0]\<close> of a C string: the terminating NUL when the string is empty.\<close>

definition c_first :: "string \<Rightarrow> char" where
  "c_first s = (case c_str s of [] \<Rightarrow> CHR 0x00 | c # _ \<Rightarrow> c)"

definition ops :: "string set" where
  "ops = {''<'', ''<='', ''='', ''>='', ''>''}"

text \<open>The loop over the option arguments: \<open>None\<close> when an argument is neither
  \<open>SQLITE_INTEGER\<close> nor \<open>SQLITE_NULL\<close>, else the vector \<open>options\<close> with
  \<open>options[i - 3]\<close> assigned the \<open>int\<close> of each argument converted to \<open>bool\<close>.\<close>

function options_loop :: "sqlite3_value list \<Rightarrow> nat \<Rightarrow> bool list \<Rightarrow> bool list option" where
  "options_loop argv i options =
     (if i < length argv \<and> i < 7 then
        (case argv ! i of
           Integer_value v \<Rightarrow>
             options_loop argv (i + 1) (options[i - 3 := (ucast v :: 32 word) \<noteq> 0])
         | Null_value \<Rightarrow> options_loop argv (i + 1) (options[i - 3 := False])
         | _ \<Rightarrow> None)
      else Some options)"
  by pat_completeness auto
termination
  by (relation "measure (\<lambda>(argv, i, options). 7 - i)") auto

text \<open>The body of \<open>versionCompareFunc\<close>, with the comparator that it calls as the
  parameter \<open>compare\<close>: a branch whose outcome is the same for every \<open>compare\<close> is
  a branch that returns without calling the comparator. The result is \<open>None\<close> only
  if the comparator read out of range.\<close>

definition versionCompareFunc_with ::
  "(string \<Rightarrow> string \<Rightarrow> bool \<Rightarrow> bool \<Rightarrow> bool \<Rightarrow> bool \<Rightarrow> int option) \<Rightarrow>
   sqlite3_value list \<Rightarrow> sqlite3_result option" where
  "versionCompareFunc_with compare argv =
     (if length argv < 3 then
        Some (Result_error ''Must provide two version strings and an operator to compare.'')
      else
        (case (argv ! 0, argv ! 1, argv ! 2) of
           (Text_value l, Text_value op, Text_value r) \<Rightarrow>
             if c_str op \<notin> ops then
               Some (Result_error
                 (''Unknown compare operator. Must provide one of the '' @
                  ''following: (<, <=, =, >=, >)''))
             else
               (case options_loop argv 3 [False, False, False, False] of
                  None \<Rightarrow>
                    Some (Result_error
                      (''Options for epoch, delim_precedence, comp_remaining, and '' @
                       ''remainder_precedence must be true, false, or null.''))
                | Some options \<Rightarrow>
                    (case compare (c_str l) (c_str r)
                            (options ! 0) (options ! 1) (options ! 2) (options ! 3) of
                       None \<Rightarrow> None
                     | Some rc \<Rightarrow>
                         Some (Result_int
                           (if (if rc < 0 then c_first op = CHR ''<''
                                else if rc > 0 then c_first op = CHR ''>''
                                else (c_first op = CHR ''='' \<or> length (c_str op) = 2))
                            then 1 else 0))))
         | _ \<Rightarrow>
             Some (Result_error
               ''Must provide two version strings and an operator to compare.'')))"

text \<open>\<open>versionCompareFunc\<close> calls \<open>versionCompare\<close>.\<close>

definition versionCompareFunc :: "bool \<Rightarrow> sqlite3_value list \<Rightarrow> sqlite3_result option" where
  "versionCompareFunc char_signed argv =
     versionCompareFunc_with (versionCompare char_signed) argv"

definition versionCollate :: "bool \<Rightarrow> string \<Rightarrow> string \<Rightarrow> int option" where
  "versionCollate char_signed pKey1 pKey2 =
     versionCompare char_signed pKey1 pKey2 False False False False"

definition versionCollateARCH :: "bool \<Rightarrow> string \<Rightarrow> string \<Rightarrow> int option" where
  "versionCollateARCH char_signed pKey1 pKey2 =
     versionCompare char_signed pKey1 pKey2 True False True True"

definition versionCollateDPKG :: "bool \<Rightarrow> string \<Rightarrow> string \<Rightarrow> int option" where
  "versionCollateDPKG char_signed pKey1 pKey2 =
     versionCompare char_signed pKey1 pKey2 True True False False"

definition versionCollateRHEL :: "bool \<Rightarrow> string \<Rightarrow> string \<Rightarrow> int option" where
  "versionCollateRHEL char_signed pKey1 pKey2 =
     versionCompare char_signed pKey1 pKey2 True True True False"

text \<open>The database handle, as far as registration changes it: the SQL functions and
  the collations it knows by name.\<close>

record sqlite3 =
  db_functions :: "string \<rightharpoonup> (sqlite3_value list \<Rightarrow> sqlite3_result option)"
  db_collations :: "string \<rightharpoonup> (string \<Rightarrow> string \<Rightarrow> int option)"

definition sqlite3_create_function ::
  "sqlite3 \<Rightarrow> string \<Rightarrow> (sqlite3_value list \<Rightarrow> sqlite3_result option) \<Rightarrow> sqlite3" where
  "sqlite3_create_function db name f = db\<lparr>db_functions := (db_functions db)(name \<mapsto> f)\<rparr>"

definition sqlite3_create_collation ::
  "sqlite3 \<Rightarrow> string \<Rightarrow> (string \<Rightarrow> string \<Rightarrow> int option) \<Rightarrow> sqlite3" where
  "sqlite3_create_collation db name f = db\<lparr>db_collations := (db_collations db)(name \<mapsto> f)\<rparr>"

definition registerVersionExtensions :: "bool \<Rightarrow> sqlite3 \<Rightarrow> sqlite3" where
  "registerVersionExtensions char_signed db =
     sqlite3_create_collation
       (sqlite3_create_collation
         (sqlite3_create_collation
           (sqlite3_create_collation
             (sqlite3_create_function db ''version_compare'' (versionCompareFunc char_signed))
             ''version'' (versionCollate char_signed))
           ''version_arch'' (versionCollateARCH char_signed))
         ''version_dpkg'' (versionCollateDPKG char_signed))
       ''version_rhel'' (versionCollateRHEL char_signed)"

section \<open>The scan as a recursion over byte pairs\<close>

text \<open>The loop reads the two strings in lock-step, so it is a recursion over the list
  of byte pairs \<open>zip l_ver r_ver\<close>. \<open>scan_pairs\<close> is the loop body on that list;
  \<open>loop_eq_scan_pairs\<close> shows that the indexed loop computes it.\<close>

fun scan_pairs :: "bool \<Rightarrow> bool \<Rightarrow> int \<Rightarrow> (char \<times> char) list \<Rightarrow> int flow" where
  "scan_pairs cs dp fd [] = Continue fd"
| "scan_pairs cs dp fd ((lc, rc) # ps) =
     (if delimiterPrecedence lc = 0 \<and> delimiterPrecedence rc = 0 then
        scan_pairs cs dp (if fd = 0 then char_to_int cs lc - char_to_int cs rc else fd) ps
      else if delimiterPrecedence lc = 0 then Return 1
      else if delimiterPrecedence rc = 0 then Return (- 1)
      else if fd \<noteq> 0 then Return fd
      else if dp \<and> delimiterPrecedence lc - delimiterPrecedence rc \<noteq> 0
        then Return (delimiterPrecedence lc - delimiterPrecedence rc)
      else scan_pairs cs dp fd ps)"

fun neg_flow :: "int flow \<Rightarrow> int flow" where
  "neg_flow (Return v) = Return (- v)"
| "neg_flow (Continue d) = Continue (- d)"
| "neg_flow Out_of_range = Out_of_range"

section \<open>The scan in the words of the specification\<close>

text \<open>
  The specification describes the scan by three rules on the pair of bytes at each
  position of the common prefix. \<open>segment_scan\<close> is written from these words, not
  from the code: a byte is ordinary when its delimiter precedence is 0; the scan either
  returns a value, or decides for one side, or exhausts the common prefix with the
  pending difference.
\<close>

datatype verdict = Result int | Left_greater | Right_greater | Exhausted int

definition ordinary :: "char \<Rightarrow> bool" where
  "ordinary c = (delimiterPrecedence c = 0)"

fun segment_scan :: "bool \<Rightarrow> bool \<Rightarrow> int \<Rightarrow> (char \<times> char) list \<Rightarrow> verdict" where
  "segment_scan cs dp pending [] = Exhausted pending"
| "segment_scan cs dp pending ((a, b) # ps) =
     (if ordinary a \<and> ordinary b then
        segment_scan cs dp
          (if pending \<noteq> 0 then pending else char_to_int cs a - char_to_int cs b) ps
      else if ordinary a \<and> \<not> ordinary b then Left_greater
      else if \<not> ordinary a \<and> ordinary b then Right_greater
      else if pending \<noteq> 0 then Result pending
      else if dp \<and> delimiterPrecedence a \<noteq> delimiterPrecedence b
        then Result (delimiterPrecedence a - delimiterPrecedence b)
      else segment_scan cs dp pending ps)"

section \<open>The option arguments by type\<close>

text \<open>An argument that passes the type test of the option loop, and the \<open>bool\<close> that
  the loop stores for it.\<close>

fun option_typed :: "sqlite3_value \<Rightarrow> bool" where
  "option_typed (Integer_value v) = True"
| "option_typed Null_value = True"
| "option_typed _ = False"

fun option_bit :: "sqlite3_value \<Rightarrow> bool" where
  "option_bit (Integer_value v) = ((ucast v :: 32 word) \<noteq> 0)"
| "option_bit _ = False"

section \<open>Basic facts\<close>

lemma to_int_id: "- (2 ^ 31) \<le> x \<Longrightarrow> x < 2 ^ 31 \<Longrightarrow> to_int x = x"
  by (simp add: to_int_def sint_sbintrunc' signed_take_bit_int_eq_self)

lemma size_diff_eq: "a < 2 ^ 31 \<Longrightarrow> b < 2 ^ 31 \<Longrightarrow> size_diff a b = int a - int b"
  unfolding size_diff_def by (rule to_int_id) simp_all

lemma drop_zip_step:
  "i < length l \<Longrightarrow> i < length r \<Longrightarrow> drop i (zip l r) = (l ! i, r ! i) # drop (Suc i) (zip l r)"
  by (metis Cons_nth_drop_Suc length_zip min_less_iff_conj nth_zip)

declare versionCompare_loop.simps [simp del]

lemma loop_eq_scan_pairs:
  assumes mn: "mn = min (length l) (length r)"
  shows "i \<le> mn \<Longrightarrow>
    versionCompare_loop cs dp l r mn i fd = scan_pairs cs dp fd (drop i (zip l r))"
proof (induction "mn - i" arbitrary: i fd)
  case 0
  then have "i = mn" by simp
  then show ?case using mn by (subst versionCompare_loop.simps) simp
next
  case (Suc k)
  then have lt: "i < mn" by simp
  with mn have il: "i < length l" and ir: "i < length r" by simp_all
  have atl: "at l i = Some (l ! i)" and atr: "at r i = Some (r ! i)"
    using il ir by (simp_all add: at_def)
  have step: "drop i (zip l r) = (l ! i, r ! i) # drop (Suc i) (zip l r)"
    using il ir by (rule drop_zip_step)
  have ih: "versionCompare_loop cs dp l r mn (Suc i) d = scan_pairs cs dp d (drop (Suc i) (zip l r))" for d
    using Suc.hyps(1) [of "Suc i" d] Suc.hyps(2) lt by simp
  show ?case
    by (subst versionCompare_loop.simps) (simp add: lt atl atr step ih)
qed

lemma loop_eq_scan_zip:
  "versionCompare_loop cs dp l r (min (length l) (length r)) 0 0 = scan_pairs cs dp 0 (zip l r)"
  using loop_eq_scan_pairs [of "min (length l) (length r)" l r 0 cs dp 0] by simp

lemma scan_pairs_swap:
  "scan_pairs cs dp (- fd) (map prod.swap ps) = neg_flow (scan_pairs cs dp fd ps)"
proof (induction ps arbitrary: fd)
  case Nil
  show ?case by simp
next
  case (Cons p ps)
  obtain a b where p: "p = (a, b)" by (cases p)
  have ih0: "scan_pairs cs dp (b' - a') (map prod.swap ps) = neg_flow (scan_pairs cs dp (a' - b') ps)" for a' b' :: int
    using Cons.IH [of "a' - b'"] by simp
  have ih1: "scan_pairs cs dp 0 (map prod.swap ps) = neg_flow (scan_pairs cs dp 0 ps)"
    using Cons.IH [of 0] by simp
  show ?case using Cons.IH [of fd] ih0 ih1 by (simp add: p)
qed

lemma zip_swap: "zip r l = map prod.swap (zip l r)"
  by (induction l arbitrary: r) (auto simp: zip_Cons1 split: list.splits) 

lemma scan_pairs_not_oor: "scan_pairs cs dp fd ps \<noteq> Out_of_range"
  by (induction ps arbitrary: fd) (auto split: if_splits)

subsection \<open>No read is out of range\<close>

lemma remainder_left_short_in_range:
  assumes "l \<noteq> []" "length l \<noteq> length r" "pos = min (length l) (length r)"
  shows "remainder_left_short cs l r pos diff rp \<noteq> Out_of_range"
proof (cases "length l = pos")
  case False
  then show ?thesis by (simp add: remainder_left_short_def)
next
  case True
  have "0 < length l" using assms(1) by simp
  with True assms(2,3) have lt: "pos < length r" and pos: "0 < pos" by linarith+
  from True pos have "digit_before cs l pos \<noteq> None"
    by (simp add: digit_before_def at_def)
  with lt True show ?thesis
    by (auto simp: remainder_left_short_def at_def split: option.splits)
qed

lemma remainder_right_short_in_range:
  assumes "r \<noteq> []" "length l \<noteq> length r" "pos = min (length l) (length r)"
  shows "remainder_right_short cs l r pos diff rp \<noteq> Out_of_range"
proof (cases "length r = pos")
  case False
  then show ?thesis by (simp add: remainder_right_short_def)
next
  case True
  have "0 < length r" using assms(1) by simp
  with True assms(2,3) have lt: "pos < length l" and pos: "0 < pos" by linarith+
  from True pos have "digit_before cs r pos \<noteq> None"
    by (simp add: digit_before_def at_def)
  with lt True show ?thesis
    by (auto simp: remainder_right_short_def at_def split: option.splits)
qed

lemma compareRemainder_total:
  assumes "l \<noteq> []" "r \<noteq> []" "length l \<noteq> length r" "pos = min (length l) (length r)"
  shows "\<exists>v. compareRemainder cs l r pos diff cr rp = Some v"
  using remainder_left_short_in_range [OF assms(1,3,4), of cs diff rp]
    remainder_right_short_in_range [OF assms(2,3,4), of cs diff rp]
  by (auto simp: compareRemainder_def split: flow.splits)

lemma versionCompare_scan:
  "versionCompare cs l r e dp cr rp =
     (if l = [] \<and> r = [] then Some 0
      else if l = [] then Some (- 1)
      else if r = [] then Some 1
      else if l = r then Some 0
      else if e \<and> compareEpoch l r \<noteq> 0 then Some (compareEpoch l r)
      else
        (case scan_pairs cs dp 0 (zip l r) of
           Return v \<Rightarrow> Some v
         | Out_of_range \<Rightarrow> None
         | Continue d \<Rightarrow>
             if length l = length r then Some d
             else compareRemainder cs l r (min (length l) (length r)) d cr rp))"
  by (simp only: versionCompare_def loop_eq_scan_zip length_0_conv)

lemma versionCompare_total: "\<exists>v. versionCompare cs l r e dp cr rp = Some v"
proof (cases "l = [] \<or> r = [] \<or> l = r \<or> (e \<and> compareEpoch l r \<noteq> 0)")
  case True
  then show ?thesis by (auto simp: versionCompare_scan)
next
  case False
  then have ne: "l \<noteq> []" "r \<noteq> []" by auto
  show ?thesis
  proof (cases "scan_pairs cs dp 0 (zip l r)")
    case (Return v)
    with False show ?thesis by (auto simp: versionCompare_scan)
  next
    case Out_of_range
    then show ?thesis by (simp add: scan_pairs_not_oor)
  next
    case (Continue d)
    show ?thesis
    proof (cases "length l = length r")
      case True
      with False Continue show ?thesis by (auto simp: versionCompare_scan)
    next
      case neq: False
      from compareRemainder_total [OF ne neq refl, of cs d cr rp]
      show ?thesis using False Continue neq by (auto simp: versionCompare_scan)
    qed
  qed
qed

subsection \<open>Swapping the two sides\<close>

lemma find_first_less: "find_first s c = Some p \<Longrightarrow> p < length s"
  by (induction s arbitrary: p) (auto split: if_splits)

lemma compareEpoch_swap:
  assumes "length l < 2 ^ 31" "length r < 2 ^ 31"
  shows "compareEpoch r l = - compareEpoch l r"
proof (cases "find_first l CHR '':''")
  case None
  then show ?thesis by (simp add: compareEpoch_def split: option.splits)
next
  case l: (Some p)
  show ?thesis
  proof (cases "find_first r CHR '':''")
    case None
    with l show ?thesis by (simp add: compareEpoch_def)
  next
    case r: (Some q)
    have "p < length l" "q < length r"
      using l r by (simp_all add: find_first_less)
    with assms have "p < 2 ^ 31" "q < 2 ^ 31" by linarith+
    then show ?thesis using l r by (simp add: compareEpoch_def size_diff_eq)
  qed
qed

lemma remainder_right_short_swap:
  "remainder_right_short cs r l pos (- d) rp =
     (case remainder_left_short cs l r pos d rp of
        Return v \<Rightarrow> Return (- v) | Continue u \<Rightarrow> Continue u | Out_of_range \<Rightarrow> Out_of_range)"
  by (simp add: remainder_left_short_def remainder_right_short_def split: option.splits)

lemma remainder_left_short_swap:
  "remainder_left_short cs r l pos (- d) rp =
     (case remainder_right_short cs l r pos d rp of
        Return v \<Rightarrow> Return (- v) | Continue u \<Rightarrow> Continue u | Out_of_range \<Rightarrow> Out_of_range)"
  by (simp add: remainder_left_short_def remainder_right_short_def split: option.splits)

lemma compareRemainder_swap:
  assumes neq: "length l \<noteq> length r"
    and bounds: "length l < 2 ^ 31" "length r < 2 ^ 31"
  shows "compareRemainder cs r l pos (- d) cr rp =
         map_option uminus (compareRemainder cs l r pos d cr rp)"
proof -
  have sd: "size_diff (length r) (length l) = - size_diff (length l) (length r)"
    using bounds by (simp add: size_diff_eq)
  consider (left) "length l = pos" "length r \<noteq> pos" | (right) "length r = pos" "length l \<noteq> pos"
    | (none) "length l \<noteq> pos" "length r \<noteq> pos"
    using neq by blast
  then show ?thesis
  proof cases
    case left
    then have a: "remainder_right_short cs l r pos d rp = Continue ()"
      and b: "remainder_left_short cs r l pos (- d) rp = Continue ()"
      by (simp_all add: remainder_right_short_def remainder_left_short_def)
    show ?thesis
      by (simp add: compareRemainder_def a b remainder_right_short_swap sd split: flow.splits)
  next
    case right
    then have a: "remainder_left_short cs l r pos d rp = Continue ()"
      and b: "remainder_right_short cs r l pos (- d) rp = Continue ()"
      by (simp_all add: remainder_right_short_def remainder_left_short_def)
    show ?thesis
      by (simp add: compareRemainder_def a b remainder_left_short_swap sd split: flow.splits)
  next
    case none
    then have "remainder_left_short cs l r pos d rp = Continue ()"
      "remainder_right_short cs r l pos (- d) rp = Continue ()"
      "remainder_right_short cs l r pos d rp = Continue ()"
      "remainder_left_short cs r l pos (- d) rp = Continue ()"
      by (simp_all add: remainder_right_short_def remainder_left_short_def)
    then show ?thesis by (simp add: compareRemainder_def sd)
  qed
qed

lemma versionCompare_swap:
  assumes bounds: "length a < 2 ^ 31" "length b < 2 ^ 31"
  shows "versionCompare cs b a e dp cr rp = map_option uminus (versionCompare cs a b e dp cr rp)"
proof (cases "a = [] \<or> b = [] \<or> a = b")
  case True
  then show ?thesis by (auto simp: versionCompare_scan)
next
  case False
  then have ne: "a \<noteq> []" "b \<noteq> []" "a \<noteq> b" "b \<noteq> a" by auto
  have ep: "compareEpoch b a = - compareEpoch a b"
    using bounds by (rule compareEpoch_swap)
  show ?thesis
  proof (cases "e \<and> compareEpoch a b \<noteq> 0")
    case True
    with ne ep show ?thesis by (simp add: versionCompare_scan)
  next
    case noep: False
    have sw: "scan_pairs cs dp 0 (zip b a) = neg_flow (scan_pairs cs dp 0 (zip a b))"
      using scan_pairs_swap [of cs dp 0 "zip a b"] by (simp add: zip_swap [of b a])
    have mn: "min (length b) (length a) = min (length a) (length b)" by simp
    show ?thesis
    proof (cases "scan_pairs cs dp 0 (zip a b)")
      case (Return v)
      with ne ep noep sw show ?thesis by (auto simp: versionCompare_scan)
    next
      case Out_of_range
      with ne ep noep sw show ?thesis by (auto simp: versionCompare_scan)
    next
      case (Continue d)
      show ?thesis
      proof (cases "length a = length b")
        case True
        with ne ep noep sw Continue show ?thesis by (auto simp: versionCompare_scan)
      next
        case neq: False
        have "compareRemainder cs b a (min (length a) (length b)) (- d) cr rp =
              map_option uminus (compareRemainder cs a b (min (length a) (length b)) d cr rp)"
          using neq bounds by (rule compareRemainder_swap)
        with ne ep noep sw Continue neq show ?thesis
          by (auto simp: versionCompare_scan mn simp del: min.commute)
      qed
    qed
  qed
qed

subsection \<open>The epoch check\<close>

lemma find_first_takeWhile:
  "find_first s c = (if c \<in> set s then Some (length (takeWhile (\<lambda>x. x \<noteq> c) s)) else None)"
  by (induction s) auto

lemma compareEpoch_cases:
  assumes "length l < 2 ^ 31" and "length r < 2 ^ 31"
    and "p = length (takeWhile (\<lambda>c. c \<noteq> CHR '':'') l)"
    and "q = length (takeWhile (\<lambda>c. c \<noteq> CHR '':'') r)"
  shows "compareEpoch l r =
     (if CHR '':'' \<in> set l \<and> CHR '':'' \<in> set r then int p - int q
      else if CHR '':'' \<in> set l then 1
      else if CHR '':'' \<in> set r then - 1
      else 0)"
proof -
  have "p \<le> length l" "q \<le> length r"
    using assms(3,4) by (simp_all add: length_takeWhile_le)
  with assms(1,2) have "p < 2 ^ 31" "q < 2 ^ 31" by linarith+
  then have "size_diff p q = int p - int q" by (rule size_diff_eq)
  then show ?thesis
    using assms(3,4) by (simp add: compareEpoch_def find_first_takeWhile)
qed

subsection \<open>The conversion of plain char\<close>

lemma of_char_int_range: "0 \<le> (of_char c :: int) \<and> (of_char c :: int) < 256"
proof -
  have "(of_char c :: nat) < 256" by (rule nat_of_char_less_256)
  then have "0 \<le> int (of_char c) \<and> int (of_char c) < 256" by linarith
  then show ?thesis by (simp only: of_nat_of_char)
qed

lemma sint_of_char:
  "sint (of_char c :: 8 word) =
     (if (of_char c :: int) < 128 then of_char c else of_char c - 256)"
proof -
  have "(of_char c :: 8 word) = word_of_int (of_char c)" by (simp only: of_int_of_char)
  then have "sint (of_char c :: 8 word) = sint (word_of_int (of_char c) :: 8 word)"
    by (rule arg_cong)
  also have "\<dots> = ((of_char c :: int) + 128) mod 256 - 128"
    by (simp add: int_word_sint del: of_int_of_char)
  finally have "sint (of_char c :: 8 word) = ((of_char c :: int) + 128) mod 256 - 128" .
  note sint = this
  show ?thesis
  proof (cases "(of_char c :: int) < 128")
    case True
    with of_char_int_range [of c] have "((of_char c :: int) + 128) mod 256 = of_char c + 128"
      by (intro mod_pos_pos_trivial) linarith+
    with sint True show ?thesis by simp
  next
    case False
    have "((of_char c :: int) + 128) mod 256 = ((of_char c - 128) + 256) mod 256"
      by (rule arg_cong [where f = "\<lambda>x. x mod 256"]) linarith
    also have "\<dots> = (of_char c - 128) mod 256" by (rule mod_add_self2)
    also from False of_char_int_range [of c] have "\<dots> = of_char c - 128"
      by (intro mod_pos_pos_trivial) linarith+
    finally show ?thesis using sint False by simp
  qed
qed



lemma int_between_48_57:
  "48 \<le> k \<and> k \<le> 57 \<longleftrightarrow> k \<in> {48, 49, 50, 51, 52, 53, 54, 55, 56, 57 :: int}"
  by (simp only: insert_iff empty_iff) arith

lemma of_char_digits:
  "(of_char c :: int) \<in> {48, 49, 50, 51, 52, 53, 54, 55, 56, 57} \<longleftrightarrow>
   c \<in> set ''0123456789''"
proof -
  have "(of_char c :: int) = of_char d \<longleftrightarrow> c = d" for d
    by (simp only: of_char_eq_iff)
  from this [of "CHR ''0''"] this [of "CHR ''1''"] this [of "CHR ''2''"] this [of "CHR ''3''"]
    this [of "CHR ''4''"] this [of "CHR ''5''"] this [of "CHR ''6''"] this [of "CHR ''7''"]
    this [of "CHR ''8''"] this [of "CHR ''9''"]
  show ?thesis by simp
qed

lemma isdigit_char_to_int:
  "isdigit (char_to_int cs c) \<longleftrightarrow> c \<in> set ''0123456789''"
proof -
  have "isdigit (char_to_int cs c) \<longleftrightarrow> 48 \<le> (of_char c :: int) \<and> (of_char c :: int) \<le> 57"
    using of_char_int_range [of c] by (auto simp: isdigit_def char_to_int_def sint_of_char)
  then show ?thesis by (simp only: int_between_48_57 of_char_digits)
qed

subsection \<open>The remainder resolver by cases\<close>

lemma digit_before_last:
  "s \<noteq> [] \<Longrightarrow> digit_before cs s (length s) = Some (last s \<in> set ''0123456789'')"
  by (simp add: digit_before_def at_def last_conv_nth isdigit_char_to_int)

lemma compareRemainder_left_shorter:
  assumes "l \<noteq> []" and "length l < length r"
  shows "compareRemainder cs l r (length l) d cr rp =
     Some (if \<not> cr then size_diff (length l) (length r)
           else if r ! length l = CHR ''~'' then 1
           else if r ! length l = CHR ''-'' then 0
           else if r ! length l = CHR ''^'' then - 1
           else if d \<noteq> 0 \<and> (\<not> rp \<or> last l \<notin> set ''0123456789'') then d
           else size_diff (length l) (length r))"
proof -
  have r: "remainder_right_short cs l r (length l) d' rp' = Continue ()" for d' rp'
    using assms(2) by (simp add: remainder_right_short_def)
  show ?thesis
    using assms
    by (simp add: compareRemainder_def remainder_left_short_def r at_def digit_before_last
        del: list.set)
qed

lemma compareRemainder_right_shorter:
  assumes "r \<noteq> []" and "length r < length l"
  shows "compareRemainder cs l r (length r) d cr rp =
     Some (if \<not> cr then size_diff (length l) (length r)
           else if l ! length r = CHR ''~'' then - 1
           else if l ! length r = CHR ''-'' then 0
           else if l ! length r = CHR ''^'' then 1
           else if d \<noteq> 0 \<and> (\<not> rp \<or> last r \<notin> set ''0123456789'') then d
           else size_diff (length l) (length r))"
proof -
  have l: "remainder_left_short cs l r (length r) d' rp' = Continue ()" for d' rp'
    using assms(2) by (simp add: remainder_left_short_def)
  show ?thesis
    using assms
    by (simp add: compareRemainder_def remainder_right_short_def l at_def digit_before_last
        del: list.set)
qed

subsection \<open>The loop and the rules of the specification\<close>

lemma scan_pairs_segment_scan:
  "scan_pairs cs dp fd ps =
     (case segment_scan cs dp fd ps of
        Result v \<Rightarrow> Return v
      | Left_greater \<Rightarrow> Return 1
      | Right_greater \<Rightarrow> Return (- 1)
      | Exhausted d \<Rightarrow> Continue d)"
  by (induction ps arbitrary: fd) (auto simp: ordinary_def)

subsection \<open>The scan up to and after the first divergence\<close>



subsection \<open>The option loop\<close>

declare options_loop.simps [simp del]

lemma options_loop_step:
  "i < length argv \<Longrightarrow> i < 7 \<Longrightarrow>
   options_loop argv i opts =
     (if option_typed (argv ! i)
      then options_loop argv (Suc i) (opts[i - 3 := option_bit (argv ! i)]) else None)"
  by (subst options_loop.simps) (simp split: sqlite3_value.splits)

lemma options_loop_stop:
  "\<not> (i < length argv \<and> i < 7) \<Longrightarrow> options_loop argv i opts = Some opts"
  by (subst options_loop.simps) auto

lemma options_loop_None:
  "(options_loop argv i opts = None) \<longleftrightarrow>
   (\<exists>j. i \<le> j \<and> j < length argv \<and> j < 7 \<and> \<not> option_typed (argv ! j))"
proof (induction "7 - i" arbitrary: i opts)
  case 0
  then have "\<not> (i < length argv \<and> i < 7)" by simp
  moreover from 0 have "\<not> (\<exists>j. i \<le> j \<and> j < length argv \<and> j < 7 \<and> \<not> option_typed (argv ! j))"
    by auto
  ultimately show ?case by (simp add: options_loop_stop)
next
  case (Suc n)
  then have lt: "i < 7" by simp
  show ?case
  proof (cases "i < length argv")
    case False
    then have "\<not> (\<exists>j. i \<le> j \<and> j < length argv \<and> j < 7 \<and> \<not> option_typed (argv ! j))"
      by auto
    with False show ?thesis by (simp add: options_loop_stop)
  next
    case True
    show ?thesis
    proof (cases "option_typed (argv ! i)")
      case False
      with True lt have "\<exists>j. i \<le> j \<and> j < length argv \<and> j < 7 \<and> \<not> option_typed (argv ! j)"
        by blast
      with False True lt show ?thesis by (simp add: options_loop_step)
    next
      case ok: True
      have ex: "(\<exists>j. Suc i \<le> j \<and> j < length argv \<and> j < 7 \<and> \<not> option_typed (argv ! j)) \<longleftrightarrow>
                (\<exists>j. i \<le> j \<and> j < length argv \<and> j < 7 \<and> \<not> option_typed (argv ! j))"
        using ok by (metis Suc_leD Suc_leI le_neq_implies_less)
      have "(options_loop argv (Suc i) (opts[i - 3 := option_bit (argv ! i)]) = None) \<longleftrightarrow>
            (\<exists>j. Suc i \<le> j \<and> j < length argv \<and> j < 7 \<and> \<not> option_typed (argv ! j))"
        using Suc.hyps(2) by (intro Suc.hyps(1)) simp
      with ex ok True lt show ?thesis by (simp add: options_loop_step)
    qed
  qed
qed

lemma options_loop_nth:
  assumes "options_loop argv i opts = Some res" and "3 \<le> i" and "k < length opts"
  shows "res ! k =
     (if i \<le> k + 3 \<and> k + 3 < length argv \<and> k + 3 < 7
      then option_bit (argv ! (k + 3)) else opts ! k)"
  using assms
proof (induction "7 - i" arbitrary: i opts)
  case 0
  then have "\<not> (i < length argv \<and> i < 7)" and "\<not> (i \<le> k + 3 \<and> k + 3 < length argv \<and> k + 3 < 7)"
    by simp_all
  with "0.prems"(1) show ?case by (auto simp: options_loop_stop)
next
  case (Suc n)
  then have lt: "i < 7" by simp
  show ?case
  proof (cases "i < length argv")
    case False
    then have "\<not> (i \<le> k + 3 \<and> k + 3 < length argv \<and> k + 3 < 7)" by simp
    with False Suc.prems(1) show ?thesis by (auto simp: options_loop_stop)
  next
    case True
    let ?opts = "opts[i - 3 := option_bit (argv ! i)]"
    from Suc.prems(1) True lt have run: "options_loop argv (Suc i) ?opts = Some res"
      by (simp add: options_loop_step split: if_splits)
    have ih: "res ! k =
       (if Suc i \<le> k + 3 \<and> k + 3 < length argv \<and> k + 3 < 7
        then option_bit (argv ! (k + 3)) else ?opts ! k)"
      using Suc.hyps(2) Suc.prems(2,3) by (intro Suc.hyps(1) run) simp_all
    show ?thesis
    proof (cases "k + 3 = i")
      case eq: True
      then have k: "k = i - 3" by simp
      have "res ! k = ?opts ! k" using ih eq by simp
      also have "\<dots> = option_bit (argv ! i)" using k Suc.prems(3) by simp
      finally show ?thesis using eq True lt by simp
    next
      case False
      then have "k \<noteq> i - 3" using Suc.prems(2) by auto
      then have "?opts ! k = opts ! k" by simp
      moreover have "(Suc i \<le> k + 3) = (i \<le> k + 3)" using False by auto
      ultimately show ?thesis using ih by simp
    qed
  qed
qed

lemma options_loop_None_iff:
  "options_loop argv 3 [False, False, False, False] = None \<longleftrightarrow>
   (\<exists>i. 3 \<le> i \<and> i < length argv \<and> i < 7 \<and> \<not> option_typed (argv ! i))"
  by (rule options_loop_None)

lemma options_loop_Some:
  assumes "options_loop argv 3 [False, False, False, False] = Some options" and "k < 4"
  shows "options ! k = (k + 3 < length argv \<and> option_bit (argv ! (k + 3)))"
proof -
  have "options ! k =
     (if 3 \<le> k + 3 \<and> k + 3 < length argv \<and> k + 3 < 7
      then option_bit (argv ! (k + 3)) else [False, False, False, False] ! k)"
    using assms by (intro options_loop_nth) simp_all
  moreover have "[False, False, False, False] ! k = False"
    using assms(2) by (simp add: nth_Cons' )
  ultimately show ?thesis using assms(2) by simp
qed


lemma option_typed_iff:
  "option_typed x \<longleftrightarrow> (\<exists>v. x = Integer_value v) \<or> x = Null_value"
  by (cases x) simp_all

subsection \<open>The scalar function by cases\<close>

lemma versionCompareFunc_with_short:
  "length argv < 3 \<Longrightarrow>
   versionCompareFunc_with compare argv =
     Some (Result_error ''Must provide two version strings and an operator to compare.'')"
  by (simp add: versionCompareFunc_with_def)

lemma versionCompareFunc_with_not_text:
  assumes "(\<nexists>s. argv ! 0 = Text_value s) \<or> (\<nexists>s. argv ! 1 = Text_value s) \<or>
           (\<nexists>s. argv ! 2 = Text_value s)"
  shows "versionCompareFunc_with compare argv =
     Some (Result_error ''Must provide two version strings and an operator to compare.'')"
  using assms
  by (cases "argv ! 0"; cases "argv ! 1"; cases "argv ! 2")
     (simp_all add: versionCompareFunc_with_def)

lemma versionCompareFunc_with_text:
  assumes "3 \<le> length argv" and "argv ! 0 = Text_value l" and "argv ! 1 = Text_value op"
    and "argv ! 2 = Text_value r"
  shows "versionCompareFunc_with compare argv =
     (if c_str op \<notin> ops then
        Some (Result_error
          (''Unknown compare operator. Must provide one of the '' @
           ''following: (<, <=, =, >=, >)''))
      else
        (case options_loop argv 3 [False, False, False, False] of
           None \<Rightarrow>
             Some (Result_error
               (''Options for epoch, delim_precedence, comp_remaining, and '' @
                ''remainder_precedence must be true, false, or null.''))
         | Some options \<Rightarrow>
             (case compare (c_str l) (c_str r)
                     (options ! 0) (options ! 1) (options ! 2) (options ! 3) of
                None \<Rightarrow> None
              | Some rc \<Rightarrow>
                  Some (Result_int
                    (if (if rc < 0 then c_first op = CHR ''<''
                         else if rc > 0 then c_first op = CHR ''>''
                         else (c_first op = CHR ''='' \<or> length (c_str op) = 2))
                     then 1 else 0)))))"
  using assms by (simp add: versionCompareFunc_with_def)

lemma versionCompareFunc_text:
  assumes "3 \<le> length argv" and "argv ! 0 = Text_value l" and "argv ! 1 = Text_value op"
    and "argv ! 2 = Text_value r"
  shows "versionCompareFunc cs argv =
     (if c_str op \<notin> ops then
        Some (Result_error
          (''Unknown compare operator. Must provide one of the '' @
           ''following: (<, <=, =, >=, >)''))
      else
        (case options_loop argv 3 [False, False, False, False] of
           None \<Rightarrow>
             Some (Result_error
               (''Options for epoch, delim_precedence, comp_remaining, and '' @
                ''remainder_precedence must be true, false, or null.''))
         | Some options \<Rightarrow>
             (case versionCompare cs (c_str l) (c_str r)
                     (options ! 0) (options ! 1) (options ! 2) (options ! 3) of
                None \<Rightarrow> None
              | Some rc \<Rightarrow>
                  Some (Result_int
                    (if (if rc < 0 then c_first op = CHR ''<''
                         else if rc > 0 then c_first op = CHR ''>''
                         else (c_first op = CHR ''='' \<or> length (c_str op) = 2))
                     then 1 else 0)))))"
  unfolding versionCompareFunc_def by (rule versionCompareFunc_with_text [OF assms])

lemma operator_mapping:
  assumes "c_str op \<in> ops"
  shows "(if rc < 0 then c_first op = CHR ''<''
          else if rc > 0 then c_first op = CHR ''>''
          else (c_first op = CHR ''='' \<or> length (c_str op) = 2)) \<longleftrightarrow>
         (rc < 0 \<and> (c_str op = ''<'' \<or> c_str op = ''<='')) \<or>
         (0 < rc \<and> (c_str op = ''>'' \<or> c_str op = ''>='')) \<or>
         (rc = (0::int) \<and> (c_str op = ''='' \<or> c_str op = ''<='' \<or> c_str op = ''>=''))"
proof -
  from assms consider "c_str op = ''<''" | "c_str op = ''<=''" | "c_str op = ''=''"
    | "c_str op = ''>=''" | "c_str op = ''>''"
    by (auto simp: ops_def)
  then show ?thesis
    by cases (simp_all add: c_first_def)
qed

lemma versionCompareFunc_valid:
  assumes "3 \<le> length argv" and "argv ! 0 = Text_value l" and "argv ! 1 = Text_value op"
    and "argv ! 2 = Text_value r" and "c_str op \<in> ops"
    and "\<forall>i. 3 \<le> i \<and> i < length argv \<and> i < 7 \<longrightarrow> option_typed (argv ! i)"
  shows "\<exists>options rc.
     options_loop argv 3 [False, False, False, False] = Some options \<and>
     versionCompare cs (c_str l) (c_str r)
       (options ! 0) (options ! 1) (options ! 2) (options ! 3) = Some rc \<and>
     versionCompareFunc cs argv =
       Some (Result_int
         (if (rc < 0 \<and> (c_str op = ''<'' \<or> c_str op = ''<='')) \<or>
             (0 < rc \<and> (c_str op = ''>'' \<or> c_str op = ''>='')) \<or>
             (rc = 0 \<and> (c_str op = ''='' \<or> c_str op = ''<='' \<or> c_str op = ''>=''))
          then 1 else 0))"
proof -
  from assms(6) have "options_loop argv 3 [False, False, False, False] \<noteq> None"
    by (simp add: options_loop_None_iff)
  then obtain options where o: "options_loop argv 3 [False, False, False, False] = Some options"
    by blast
  obtain rc where rc: "versionCompare cs (c_str l) (c_str r)
       (options ! 0) (options ! 1) (options ! 2) (options ! 3) = Some rc"
    using versionCompare_total by blast
  have "versionCompareFunc cs argv =
       Some (Result_int
         (if (rc < 0 \<and> (c_str op = ''<'' \<or> c_str op = ''<='')) \<or>
             (0 < rc \<and> (c_str op = ''>'' \<or> c_str op = ''>='')) \<or>
             (rc = 0 \<and> (c_str op = ''='' \<or> c_str op = ''<='' \<or> c_str op = ''>=''))
          then 1 else 0))"
    unfolding versionCompareFunc_text [OF assms(1-4)]
    using assms(5) o rc by (simp add: operator_mapping [OF assms(5)])
  with o rc show ?thesis by blast
qed

section \<open>The claims\<close>

text \<open>
  Claim C1. For non-empty, non-identical version strings and every policy, when the
  epoch check does not return early, the comparison follows the three rules of the
  lock-step scan over the common prefix (\<open>segment_scan\<close>, started with no pending
  difference): (1) at two ordinary bytes the difference \<open>int(left) - int(right)\<close> is
  recorded as pending only if no non-zero difference is pending, and scanning
  continues; (2) at an ordinary byte against a delimiter the comparison returns with
  the ordinary side greater (positive if left is ordinary, negative if right is);
  (3) at two delimiters a non-zero pending difference is returned, otherwise the rank
  difference when delim\_precedence is set and the ranks differ, otherwise scanning
  continues. When the scan exhausts the common prefix the loop ends with the pending
  difference, which is the result if the strings have equal length.
\<close>

theorem C1_scan_rules:
  assumes "l \<noteq> []" and "r \<noteq> []" and "l \<noteq> r"
    and "epoch \<longrightarrow> compareEpoch l r = 0"
  shows "case segment_scan cs dp 0 (zip l r) of
           Result v \<Rightarrow> versionCompare cs l r epoch dp cr rp = Some v
         | Left_greater \<Rightarrow> (\<exists>v. versionCompare cs l r epoch dp cr rp = Some v \<and> 0 < v)
         | Right_greater \<Rightarrow> (\<exists>v. versionCompare cs l r epoch dp cr rp = Some v \<and> v < 0)
         | Exhausted d \<Rightarrow>
             versionCompare_loop cs dp l r (min (length l) (length r)) 0 0 = Continue d \<and>
             (length l = length r \<longrightarrow> versionCompare cs l r epoch dp cr rp = Some d)"
proof -
  have vc: "versionCompare cs l r epoch dp cr rp =
        (case scan_pairs cs dp 0 (zip l r) of
           Return v \<Rightarrow> Some v
         | Out_of_range \<Rightarrow> None
         | Continue d \<Rightarrow>
             if length l = length r then Some d
             else compareRemainder cs l r (min (length l) (length r)) d cr rp)"
    using assms by (cases epoch) (simp_all add: versionCompare_scan)
  show ?thesis
    unfolding vc loop_eq_scan_zip scan_pairs_segment_scan [of cs dp 0 "zip l r"]
    by (simp split: verdict.splits)
qed

theorem C1_scan_rules_witness:
  "''1.2a-x'' \<noteq> [] \<and> ''1.2b-y'' \<noteq> [] \<and> ''1.2a-x'' \<noteq> ''1.2b-y'' \<and>
   compareEpoch ''1.2a-x'' ''1.2b-y'' = 0 \<and>
   segment_scan True True 0 (zip ''1.2a-x'' ''1.2b-y'') = Result (- 1) \<and>
   versionCompare True ''1.2a-x'' ''1.2b-y'' True True True False = Some (- 1)"
proof -
  have h: "''1.2a-x'' \<noteq> []" "''1.2b-y'' \<noteq> []" "''1.2a-x'' \<noteq> ''1.2b-y''"
    "True \<longrightarrow> compareEpoch ''1.2a-x'' ''1.2b-y'' = 0"
    by (simp_all add: compareEpoch_def)
  have s: "segment_scan True True 0 (zip ''1.2a-x'' ''1.2b-y'') = Result (- 1)"
    by (simp add: ordinary_def delimiterPrecedence_def char_to_int_def)
  from C1_scan_rules [OF h, of True True True False] s
  have "versionCompare True ''1.2a-x'' ''1.2b-y'' True True True False = Some (- 1)"
    by simp
  with h s show ?thesis by simp
qed

text \<open>
  Claim C2. For non-empty version strings of unequal length (each of a length that an
  \<open>int\<close> holds) whose common prefix the loop scanned without an early return, leaving
  the pending difference \<open>d\<close>, and with no early return of the epoch check; let
  \<open>b\<close> be the first byte of the longer string past the common prefix. If
  comp\_remaining is unset the result is \<open>len(left) - len(right)\<close>. If it is set:
  \<open>b = '~'\<close> makes the shorter side win (positive if left is shorter, negative if
  right is shorter); \<open>b = '-'\<close> yields 0; \<open>b = '^'\<close> makes the longer side win; any
  other \<open>b\<close> yields \<open>d\<close> when \<open>d\<close> is non-zero and either remainder\_precedence is
  unset or the last byte of the shorter string is not a decimal digit, and
  \<open>len(left) - len(right)\<close> in all remaining cases.
\<close>

theorem C2_remainder:
  assumes "l \<noteq> []" and "r \<noteq> []" and "length l \<noteq> length r"
    and "length l < 2 ^ 31" and "length r < 2 ^ 31"
    and "epoch \<longrightarrow> compareEpoch l r = 0"
    and "versionCompare_loop cs dp l r (min (length l) (length r)) 0 0 = Continue d"
    and "shorter = (if length l < length r then l else r)"
    and "longer = (if length l < length r then r else l)"
    and "b = longer ! length shorter"
  shows "\<exists>v. versionCompare cs l r epoch dp cr rp = Some v \<and>
     (\<not> cr \<longrightarrow> v = int (length l) - int (length r)) \<and>
     (cr \<and> b = CHR ''~'' \<longrightarrow> (if length l < length r then 0 < v else v < 0)) \<and>
     (cr \<and> b = CHR ''-'' \<longrightarrow> v = 0) \<and>
     (cr \<and> b = CHR ''^'' \<longrightarrow> (if length l < length r then v < 0 else 0 < v)) \<and>
     (cr \<and> b \<notin> {CHR ''~'', CHR ''-'', CHR ''^''} \<and>
        d \<noteq> 0 \<and> (\<not> rp \<or> last shorter \<notin> set ''0123456789'') \<longrightarrow> v = d) \<and>
     (cr \<and> b \<notin> {CHR ''~'', CHR ''-'', CHR ''^''} \<and>
        \<not> (d \<noteq> 0 \<and> (\<not> rp \<or> last shorter \<notin> set ''0123456789'')) \<longrightarrow>
        v = int (length l) - int (length r))"
proof -
  have sd: "size_diff (length l) (length r) = int (length l) - int (length r)"
    using assms(4,5) by (rule size_diff_eq)
  have scan: "scan_pairs cs dp 0 (zip l r) = Continue d"
    using assms(7) by (simp only: loop_eq_scan_zip)
  have neq: "l \<noteq> r" using assms(3) by auto
  have vc: "versionCompare cs l r epoch dp cr rp =
            compareRemainder cs l r (min (length l) (length r)) d cr rp"
  proof -
    from assms(1-3,6) neq scan show ?thesis
      by (cases epoch) (simp_all add: versionCompare_scan)
  qed
  show ?thesis
  proof (cases "length l < length r")
    case True
    then have mn: "min (length l) (length r) = length l" by simp
    from True assms(8-10) have b: "b = r ! length l" and s: "shorter = l" by simp_all
    show ?thesis
      unfolding vc mn compareRemainder_left_shorter [OF assms(1) True] sd b s
      using True by (auto simp del: list.set)
  next
    case False
    with assms(3) have lt: "length r < length l" by simp
    then have mn: "min (length l) (length r) = length r" by simp
    from False assms(8-10) have b: "b = l ! length r" and s: "shorter = r" by simp_all
    show ?thesis
      unfolding vc mn compareRemainder_right_shorter [OF assms(2) lt] sd b s
      using False lt by (auto simp del: list.set)
  qed
qed


theorem C2_remainder_witness:
  "''1.0a'' \<noteq> [] \<and> ''1.0b.1'' \<noteq> [] \<and> length ''1.0a'' \<noteq> length ''1.0b.1'' \<and>
   length ''1.0a'' < 2 ^ 31 \<and> length ''1.0b.1'' < 2 ^ 31 \<and>
   compareEpoch ''1.0a'' ''1.0b.1'' = 0 \<and>
   versionCompare_loop True True ''1.0a'' ''1.0b.1''
     (min (length ''1.0a'') (length ''1.0b.1'')) 0 0 = Continue (- 1) \<and>
   ''1.0b.1'' ! length ''1.0a'' = CHR ''.'' \<and>
   last ''1.0a'' \<notin> set ''0123456789'' \<and>
   versionCompare True ''1.0a'' ''1.0b.1'' True True True True = Some (- 1)"
proof -
  have h: "''1.0a'' \<noteq> []" "''1.0b.1'' \<noteq> []" "length ''1.0a'' \<noteq> length ''1.0b.1''"
    "length ''1.0a'' < 2 ^ 31" "length ''1.0b.1'' < 2 ^ 31"
    "True \<longrightarrow> compareEpoch ''1.0a'' ''1.0b.1'' = 0"
    by (simp_all add: compareEpoch_def)
  have scan: "versionCompare_loop True True ''1.0a'' ''1.0b.1''
     (min (length ''1.0a'') (length ''1.0b.1'')) 0 0 = Continue (- 1)"
    by (simp only: loop_eq_scan_zip) (simp add: delimiterPrecedence_def char_to_int_def)
  have b: "''1.0b.1'' ! length ''1.0a'' = CHR ''.''" "last ''1.0a'' \<notin> set ''0123456789''"
    by simp_all
  from C2_remainder [OF h scan refl refl refl, of True True] b
  have "versionCompare True ''1.0a'' ''1.0b.1'' True True True True = Some (- 1)"
    by simp
  with h scan b show ?thesis by simp
qed

text \<open>
  Claim C3. For non-empty, non-identical version strings (of a length that an \<open>int\<close>
  holds) compared with the epoch bit set, where \<open>p\<close> and \<open>q\<close> are the positions of
  the first \<open>':'\<close> of the left and of the right string: if only the left string
  contains a \<open>':'\<close> the result is positive, if only the right one does it is negative;
  if both do and \<open>p \<noteq> q\<close>, the result is \<open>p - q\<close>, whatever the epoch segments
  hold; if neither does, or \<open>p = q\<close>, the result is that of the comparison with the
  epoch bit unset, which starts at the segment scan.
\<close>

theorem C3_epoch:
  assumes "l \<noteq> []" and "r \<noteq> []" and "l \<noteq> r"
    and "length l < 2 ^ 31" and "length r < 2 ^ 31"
    and "p = length (takeWhile (\<lambda>c. c \<noteq> CHR '':'') l)"
    and "q = length (takeWhile (\<lambda>c. c \<noteq> CHR '':'') r)"
  shows "(CHR '':'' \<in> set l \<and> CHR '':'' \<notin> set r \<longrightarrow>
            (\<exists>v. versionCompare cs l r True dp cr rp = Some v \<and> 0 < v)) \<and>
         (CHR '':'' \<notin> set l \<and> CHR '':'' \<in> set r \<longrightarrow>
            (\<exists>v. versionCompare cs l r True dp cr rp = Some v \<and> v < 0)) \<and>
         (CHR '':'' \<in> set l \<and> CHR '':'' \<in> set r \<and> p \<noteq> q \<longrightarrow>
            versionCompare cs l r True dp cr rp = Some (int p - int q)) \<and>
         ((CHR '':'' \<notin> set l \<and> CHR '':'' \<notin> set r) \<or>
          (CHR '':'' \<in> set l \<and> CHR '':'' \<in> set r \<and> p = q) \<longrightarrow>
            versionCompare cs l r True dp cr rp = versionCompare cs l r False dp cr rp)"
proof -
  note ep = compareEpoch_cases [OF assms(4-7)]
  show ?thesis
    using assms(1-3) by (auto simp: versionCompare_scan ep)
qed

theorem C3_epoch_witness:
  "''10:1'' \<noteq> [] \<and> ''9:1'' \<noteq> [] \<and> ''10:1'' \<noteq> ''9:1'' \<and>
   length ''10:1'' < 2 ^ 31 \<and> length ''9:1'' < 2 ^ 31 \<and>
   (2::nat) = length (takeWhile (\<lambda>c. c \<noteq> CHR '':'') ''10:1'') \<and>
   (1::nat) = length (takeWhile (\<lambda>c. c \<noteq> CHR '':'') ''9:1'') \<and>
   CHR '':'' \<in> set ''10:1'' \<and> CHR '':'' \<in> set ''9:1'' \<and> (2::nat) \<noteq> 1 \<and>
   versionCompare True ''10:1'' ''9:1'' True True True False = Some 1"
proof -
  have h: "''10:1'' \<noteq> []" "''9:1'' \<noteq> []" "''10:1'' \<noteq> ''9:1''"
    "length ''10:1'' < 2 ^ 31" "length ''9:1'' < 2 ^ 31"
    "(2::nat) = length (takeWhile (\<lambda>c. c \<noteq> CHR '':'') ''10:1'')"
    "(1::nat) = length (takeWhile (\<lambda>c. c \<noteq> CHR '':'') ''9:1'')"
    by simp_all
  have c: "CHR '':'' \<in> set ''10:1''" "CHR '':'' \<in> set ''9:1''" "(2::nat) \<noteq> 1"
    by simp_all
  from C3_epoch [OF h, of True True True False] c
  have "versionCompare True ''10:1'' ''9:1'' True True True False = Some 1" by simp
  with h c show ?thesis by blast
qed

text \<open>
  Claim C4. For all version strings \<open>a\<close> and \<open>b\<close> (of a length that an \<open>int\<close>
  holds, as the caller passes it) and every combination of the four policy bits, both
  comparisons return, and the sign of \<open>compare(a, b)\<close> is the negation of the sign of
  \<open>compare(b, a)\<close>.
\<close>

theorem C4_antisymmetry:
  assumes "length a < 2 ^ 31" and "length b < 2 ^ 31"
  shows "\<exists>x y. versionCompare cs a b e dp cr rp = Some x \<and>
               versionCompare cs b a e dp cr rp = Some y \<and> sgn x = - sgn y"
proof -
  obtain x where x: "versionCompare cs a b e dp cr rp = Some x"
    using versionCompare_total by blast
  have "versionCompare cs b a e dp cr rp = Some (- x)"
    using versionCompare_swap [OF assms, of cs e dp cr rp] x by simp
  with x show ?thesis by (simp add: sgn_minus)
qed

theorem C4_antisymmetry_witness:
  "length ''1.0~rc1'' < 2 ^ 31 \<and> length ''1.0.10'' < 2 ^ 31 \<and>
   (\<exists>x y. versionCompare True ''1.0~rc1'' ''1.0.10'' True True True False = Some x \<and>
          versionCompare True ''1.0.10'' ''1.0~rc1''  True True True False = Some y \<and>
          sgn x = - sgn y)"
  using C4_antisymmetry [of "''1.0~rc1''" "''1.0.10''" True True True True False] by simp




text \<open>
  Claim C6. Each collation callback is the comparator with its fixed preset of
  (epoch, delim\_precedence, comp\_remaining, remainder\_precedence), with the
  comparator's result passed on unchanged: generic (false, false, false, false), arch
  (true, false, true, true), dpkg (true, true, false, false), rhel (true, true, true,
  false); and \<open>registerVersionExtensions\<close> binds them to the names \<open>version\<close>,
  \<open>version_arch\<close>, \<open>version_dpkg\<close> and \<open>version_rhel\<close>.
\<close>

theorem C6_collation_presets:
  "versionCollate cs a b = versionCompare cs a b False False False False \<and>
   versionCollateARCH cs a b = versionCompare cs a b True False True True \<and>
   versionCollateDPKG cs a b = versionCompare cs a b True True False False \<and>
   versionCollateRHEL cs a b = versionCompare cs a b True True True False \<and>
   db_collations (registerVersionExtensions cs db) ''version'' =
     Some (\<lambda>a b. versionCompare cs a b False False False False) \<and>
   db_collations (registerVersionExtensions cs db) ''version_arch'' =
     Some (\<lambda>a b. versionCompare cs a b True False True True) \<and>
   db_collations (registerVersionExtensions cs db) ''version_dpkg'' =
     Some (\<lambda>a b. versionCompare cs a b True True False False) \<and>
   db_collations (registerVersionExtensions cs db) ''version_rhel'' =
     Some (\<lambda>a b. versionCompare cs a b True True True False)"
  by (simp add: versionCollate_def versionCollateARCH_def versionCollateDPKG_def
      versionCollateRHEL_def registerVersionExtensions_def sqlite3_create_collation_def
      sqlite3_create_function_def fun_eq_iff)

text \<open>
  Claim C7. For every valid invocation of the scalar function (at least three
  arguments; left, operator and right are text; the operator, read as a C string, is one
  of \<open><\<close>, \<open><=\<close>, \<open>=\<close>, \<open>>=\<close>, \<open>>\<close>; every option argument at positions 4 to 7 is
  an integer or null), the option loop resolves a policy, the comparator returns some
  \<open>rc\<close> on the two texts under that policy, and the function returns true (the
  integer 1) iff \<open>rc < 0\<close> and the operator is \<open><\<close> or \<open><=\<close>, or \<open>rc > 0\<close> and it is
  \<open>>\<close> or \<open>>=\<close>, or \<open>rc = 0\<close> and it is \<open>=\<close>, \<open><=\<close> or \<open>>=\<close>; otherwise it
  returns false (the integer 0). In particular \<open>version_compare('1.0','<','2.0')\<close>,
  \<open>version_compare('1.0','=','1.0')\<close> and \<open>version_compare('1.0','>=','1.0')\<close> are
  true.
\<close>

theorem C7_predicate:
  "(3 \<le> length argv \<and> argv ! 0 = Text_value l \<and> argv ! 1 = Text_value op \<and>
    argv ! 2 = Text_value r \<and> c_str op \<in> {''<'', ''<='', ''='', ''>='', ''>''} \<and>
    (\<forall>i. 3 \<le> i \<and> i < length argv \<and> i < 7 \<longrightarrow>
         (\<exists>v. argv ! i = Integer_value v) \<or> argv ! i = Null_value) \<longrightarrow>
    (\<exists>options rc.
       options_loop argv 3 [False, False, False, False] = Some options \<and>
       versionCompare cs (c_str l) (c_str r)
         (options ! 0) (options ! 1) (options ! 2) (options ! 3) = Some rc \<and>
       versionCompareFunc cs argv =
         Some (Result_int
           (if (rc < 0 \<and> (c_str op = ''<'' \<or> c_str op = ''<='')) \<or>
               (0 < rc \<and> (c_str op = ''>'' \<or> c_str op = ''>='')) \<or>
               (rc = 0 \<and> (c_str op = ''='' \<or> c_str op = ''<='' \<or> c_str op = ''>=''))
            then 1 else 0)))) \<and>
   versionCompareFunc cs [Text_value ''1.0'', Text_value ''<'', Text_value ''2.0''] =
     Some (Result_int 1) \<and>
   versionCompareFunc cs [Text_value ''1.0'', Text_value ''='', Text_value ''1.0''] =
     Some (Result_int 1) \<and>
   versionCompareFunc cs [Text_value ''1.0'', Text_value ''>='', Text_value ''1.0''] =
     Some (Result_int 1)"
proof (intro conjI impI)
  assume a: "3 \<le> length argv \<and> argv ! 0 = Text_value l \<and> argv ! 1 = Text_value op \<and>
    argv ! 2 = Text_value r \<and> c_str op \<in> {''<'', ''<='', ''='', ''>='', ''>''} \<and>
    (\<forall>i. 3 \<le> i \<and> i < length argv \<and> i < 7 \<longrightarrow>
         (\<exists>v. argv ! i = Integer_value v) \<or> argv ! i = Null_value)"
  then have typed: "\<forall>i. 3 \<le> i \<and> i < length argv \<and> i < 7 \<longrightarrow> option_typed (argv ! i)"
    by (simp add: option_typed_iff)
  from a have op: "c_str op \<in> ops" by (simp add: ops_def)
  from a show "\<exists>options rc.
       options_loop argv 3 [False, False, False, False] = Some options \<and>
       versionCompare cs (c_str l) (c_str r)
         (options ! 0) (options ! 1) (options ! 2) (options ! 3) = Some rc \<and>
       versionCompareFunc cs argv =
         Some (Result_int
           (if (rc < 0 \<and> (c_str op = ''<'' \<or> c_str op = ''<='')) \<or>
               (0 < rc \<and> (c_str op = ''>'' \<or> c_str op = ''>='')) \<or>
               (rc = 0 \<and> (c_str op = ''='' \<or> c_str op = ''<='' \<or> c_str op = ''>=''))
            then 1 else 0))"
    using op typed by (intro versionCompareFunc_valid) simp_all
next
  show "versionCompareFunc cs [Text_value ''1.0'', Text_value ''<'', Text_value ''2.0''] =
     Some (Result_int 1)"
    by (simp add: versionCompareFunc_def versionCompareFunc_with_def c_str_def c_first_def
        ops_def options_loop_stop
        versionCompare_scan compareEpoch_def delimiterPrecedence_def char_to_int_def)
next
  show "versionCompareFunc cs [Text_value ''1.0'', Text_value ''='', Text_value ''1.0''] =
     Some (Result_int 1)"
    by (simp add: versionCompareFunc_def versionCompareFunc_with_def c_str_def c_first_def
        ops_def options_loop_stop
        versionCompare_scan)
next
  show "versionCompareFunc cs [Text_value ''1.0'', Text_value ''>='', Text_value ''1.0''] =
     Some (Result_int 1)"
    by (simp add: versionCompareFunc_def versionCompareFunc_with_def c_str_def c_first_def
        ops_def options_loop_stop
        versionCompare_scan)
qed

theorem C7_predicate_witness:
  "versionCompareFunc True
     [Text_value ''1.0~rc1'', Text_value ''<'', Text_value ''1.0'',
      Integer_value 1, Null_value, Integer_value 1] = Some (Result_int 1) \<and>
   versionCompare True ''1.0~rc1'' ''1.0'' True False True False = Some (- 1)"
proof -
  let ?argv = "[Text_value ''1.0~rc1'', Text_value ''<'', Text_value ''1.0'',
      Integer_value 1, Null_value, Integer_value 1]"
  have typed: "\<forall>i. 3 \<le> i \<and> i < length ?argv \<and> i < 7 \<longrightarrow>
         (\<exists>v. ?argv ! i = Integer_value v) \<or> ?argv ! i = Null_value"
  proof (intro allI impI)
    fix i :: nat
    assume "3 \<le> i \<and> i < length ?argv \<and> i < 7"
    then have "i = 3 \<or> i = 4 \<or> i = 5" by auto
    then show "(\<exists>v. ?argv ! i = Integer_value v) \<or> ?argv ! i = Null_value" by auto
  qed
  have opts: "options_loop ?argv 3 [False, False, False, False] = Some [True, False, True, False]"
    by (simp add: options_loop_step options_loop_stop)
  have rc: "versionCompare True ''1.0~rc1'' ''1.0'' True False True False = Some (- 1)"
    by (simp add: versionCompare_scan compareEpoch_def delimiterPrecedence_def
        compareRemainder_def remainder_left_short_def remainder_right_short_def at_def)
  have "3 \<le> length ?argv \<and> ?argv ! 0 = Text_value ''1.0~rc1'' \<and> ?argv ! 1 = Text_value ''<'' \<and>
    ?argv ! 2 = Text_value ''1.0'' \<and> c_str ''<'' \<in> {''<'', ''<='', ''='', ''>='', ''>''}"
    by (simp add: c_str_def)
  with typed C7_predicate [of ?argv "''1.0~rc1''" "''<''" "''1.0''" True]
  have "\<exists>options rc.
       options_loop ?argv 3 [False, False, False, False] = Some options \<and>
       versionCompare True (c_str ''1.0~rc1'') (c_str ''1.0'')
         (options ! 0) (options ! 1) (options ! 2) (options ! 3) = Some rc \<and>
       versionCompareFunc True ?argv =
         Some (Result_int
           (if (rc < 0 \<and> (c_str ''<'' = ''<'' \<or> c_str ''<'' = ''<='')) \<or>
               (0 < rc \<and> (c_str ''<'' = ''>'' \<or> c_str ''<'' = ''>='')) \<or>
               (rc = 0 \<and> (c_str ''<'' = ''='' \<or> c_str ''<'' = ''<='' \<or> c_str ''<'' = ''>=''))
            then 1 else 0))"
    by blast
  then have "versionCompareFunc True ?argv = Some (Result_int 1)"
    unfolding opts by (simp add: c_str_def rc)
  with rc show ?thesis by simp
qed

text \<open>
  Claim C8, as stated: the scalar function reports an error exactly when fewer than 3
  arguments are given, or one of the first three arguments is not text, or the operator
  argument is not one of \<open><\<close>, \<open><=\<close>, \<open>=\<close>, \<open>>=\<close>, \<open>>\<close>, or an option argument
  is neither an integer nor null. It fails on the three text arguments \<open>1.0\<close>, the
  operator made of the bytes \<open><\<close>, NUL, \<open>x\<close>, and \<open>2.0\<close>: the operator is none of the
  five, yet the function returns the integer 1, since it reads the operator as a C
  string, which ends at the NUL.
\<close>

theorem C8_counterexample:
  "[CHR ''<'', CHR 0x00, CHR ''x''] \<notin> {''<'', ''<='', ''='', ''>='', ''>''} \<and>
   versionCompareFunc True
     [Text_value ''1.0'', Text_value [CHR ''<'', CHR 0x00, CHR ''x''], Text_value ''2.0''] =
     Some (Result_int 1) \<and>
   versionCompareFunc False
     [Text_value ''1.0'', Text_value [CHR ''<'', CHR 0x00, CHR ''x''], Text_value ''2.0''] =
     Some (Result_int 1)"
  by (simp add: versionCompareFunc_def versionCompareFunc_with_def c_str_def c_first_def
      ops_def options_loop_stop versionCompare_scan compareEpoch_def delimiterPrecedence_def
      char_to_int_def)

text \<open>
  Claim C8, amended. The scalar function reports an error exactly when fewer than 3
  arguments are given, or one of the first three arguments is not text, or the operator
  argument, read as a C string (its bytes before the first NUL), is not one of \<open><\<close>,
  \<open><=\<close>, \<open>=\<close>, \<open>>=\<close>, \<open>>\<close>, or an option argument at positions 4 to 7 is neither
  an integer nor null. Whenever it reports an error it does so without running the
  comparator: the same error is the outcome with every comparator in the place of
  \<open>versionCompare\<close>, also one that never returns. The error is the whole outcome: no
  integer result is produced beside it, and in every other case the outcome is an
  integer result. An option that is absent or null resolves to false.
\<close>

theorem C8_errors:
  "((\<exists>msg. versionCompareFunc cs argv = Some (Result_error msg)) \<longleftrightarrow>
      length argv < 3 \<or>
      (\<nexists>s. argv ! 0 = Text_value s) \<or> (\<nexists>s. argv ! 1 = Text_value s) \<or>
      (\<nexists>s. argv ! 2 = Text_value s) \<or>
      (\<forall>op. argv ! 1 = Text_value op \<longrightarrow> c_str op \<notin> {''<'', ''<='', ''='', ''>='', ''>''}) \<or>
      (\<exists>i. 3 \<le> i \<and> i < length argv \<and> i < 7 \<and>
           (\<nexists>v. argv ! i = Integer_value v) \<and> argv ! i \<noteq> Null_value)) \<and>
   ((\<exists>msg. versionCompareFunc cs argv = Some (Result_error msg)) \<longrightarrow>
      (\<exists>msg. \<forall>compare. versionCompareFunc_with compare argv = Some (Result_error msg))) \<and>
   ((\<nexists>msg. versionCompareFunc cs argv = Some (Result_error msg)) \<longrightarrow>
      (\<exists>b. versionCompareFunc cs argv = Some (Result_int b))) \<and>
   (\<forall>options k. options_loop argv 3 [False, False, False, False] = Some options \<and> k < 4 \<and>
        (length argv \<le> k + 3 \<or> argv ! (k + 3) = Null_value) \<longrightarrow> options ! k = False)"
proof -
  have dflt: "options ! k = False"
    if "options_loop argv 3 [False, False, False, False] = Some options \<and> k < 4 \<and>
        (length argv \<le> k + 3 \<or> argv ! (k + 3) = Null_value)" for options k
  proof -
    from that have "options ! k = (k + 3 < length argv \<and> option_bit (argv ! (k + 3)))"
      by (intro options_loop_Some) simp_all
    with that show ?thesis by auto
  qed
  let ?bad = "\<exists>i. 3 \<le> i \<and> i < length argv \<and> i < 7 \<and>
           (\<nexists>v. argv ! i = Integer_value v) \<and> argv ! i \<noteq> Null_value"
  let ?cond = "length argv < 3 \<or>
      (\<nexists>s. argv ! 0 = Text_value s) \<or> (\<nexists>s. argv ! 1 = Text_value s) \<or>
      (\<nexists>s. argv ! 2 = Text_value s) \<or>
      (\<forall>op. argv ! 1 = Text_value op \<longrightarrow> c_str op \<notin> {''<'', ''<='', ''='', ''>='', ''>''}) \<or>
      ?bad"
  let ?E = "\<exists>msg. versionCompareFunc cs argv = Some (Result_error msg)"
  let ?D = "\<exists>msg. \<forall>compare. versionCompareFunc_with compare argv = Some (Result_error msg)"
  let ?R = "\<exists>b. versionCompareFunc cs argv = Some (Result_int b)"
  have bad: "?bad \<longleftrightarrow> options_loop argv 3 [False, False, False, False] = None"
    by (simp add: options_loop_None_iff option_typed_iff)
  have DE: "?D \<Longrightarrow> ?E" unfolding versionCompareFunc_def by blast
  have RE: "?R \<Longrightarrow> \<not> ?E" by auto
  have split: "(?D \<and> ?cond) \<or> (?R \<and> \<not> ?cond)"
  proof (cases "length argv < 3 \<or> (\<nexists>s. argv ! 0 = Text_value s) \<or>
      (\<nexists>s. argv ! 1 = Text_value s) \<or> (\<nexists>s. argv ! 2 = Text_value s)")
    case True
    then have "\<forall>compare. versionCompareFunc_with compare argv =
        Some (Result_error ''Must provide two version strings and an operator to compare.'')"
      using versionCompareFunc_with_short [of argv] versionCompareFunc_with_not_text [of argv]
      by blast
    then have ?D by (rule exI)
    with True show ?thesis by blast
  next
    case False
    then obtain l op r where t: "3 \<le> length argv" "argv ! 0 = Text_value l"
      "argv ! 1 = Text_value op" "argv ! 2 = Text_value r"
      by auto
    note f = versionCompareFunc_with_text [OF t]
    show ?thesis
    proof (cases "c_str op \<in> ops")
      case no: False
      then have "\<forall>compare. versionCompareFunc_with compare argv =
          Some (Result_error
            (''Unknown compare operator. Must provide one of the '' @
             ''following: (<, <=, =, >=, >)''))"
        by (simp add: f)
      then have ?D by (rule exI)
      moreover from no t(3)
      have "\<forall>op. argv ! 1 = Text_value op \<longrightarrow> c_str op \<notin> {''<'', ''<='', ''='', ''>='', ''>''}"
        by (simp add: ops_def)
      ultimately show ?thesis by blast
    next
      case yes: True
      with t(3)
      have nop: "\<not> (\<forall>op. argv ! 1 = Text_value op \<longrightarrow>
                     c_str op \<notin> {''<'', ''<='', ''='', ''>='', ''>''})"
        by (simp add: ops_def)
      show ?thesis
      proof (cases "options_loop argv 3 [False, False, False, False]")
        case None
        then have "\<forall>compare. versionCompareFunc_with compare argv =
            Some (Result_error
              (''Options for epoch, delim_precedence, comp_remaining, and '' @
               ''remainder_precedence must be true, false, or null.''))"
          using yes by (simp add: f)
        then have ?D by (rule exI)
        moreover from None bad have ?bad by blast
        ultimately show ?thesis by blast
      next
        case (Some options)
        obtain rc where "versionCompare cs (c_str l) (c_str r)
            (options ! 0) (options ! 1) (options ! 2) (options ! 3) = Some rc"
          using versionCompare_total by blast
        with Some yes have ?R
          by (simp add: versionCompareFunc_def f)
        moreover from Some bad have "\<not> ?bad" by simp
        ultimately show ?thesis using False nop by auto
      qed
    qed
  qed
  from split DE RE have 1: "?E \<longleftrightarrow> ?cond" and 2: "?E \<longrightarrow> ?D" and 3: "\<not> ?E \<longrightarrow> ?R"
    by blast+
  from 1 2 3 dflt show ?thesis by blast
qed

theorem C8_errors_witness:
  "(\<exists>msg. versionCompareFunc True
            [Text_value ''1.0'', Text_value ''??'', Text_value ''2.0''] =
            Some (Result_error msg) \<and>
          versionCompareFunc_with (\<lambda>l r epoch dp cr rp. None)
            [Text_value ''1.0'', Text_value ''??'', Text_value ''2.0''] =
            Some (Result_error msg)) \<and>
   c_str ''??'' \<notin> {''<'', ''<='', ''='', ''>='', ''>''}"
proof -
  let ?argv = "[Text_value ''1.0'', Text_value ''??'', Text_value ''2.0'']"
  have op: "c_str ''??'' \<notin> {''<'', ''<='', ''='', ''>='', ''>''}"
    by (simp add: c_str_def)
  then have "\<forall>op. ?argv ! 1 = Text_value op \<longrightarrow>
      c_str op \<notin> {''<'', ''<='', ''='', ''>='', ''>''}"
    by simp
  with C8_errors [of True ?argv]
  obtain msg where m: "\<forall>compare. versionCompareFunc_with compare ?argv = Some (Result_error msg)"
    by blast
  then have "versionCompareFunc True ?argv = Some (Result_error msg)"
    unfolding versionCompareFunc_def by blast
  moreover from m have "versionCompareFunc_with (\<lambda>l r epoch dp cr rp. None) ?argv =
      Some (Result_error msg)"
    by blast
  ultimately show ?thesis using op by blast
qed

text \<open>
  Claim C9. Under every combination of the four policy bits (and either signedness of
  plain \<open>char\<close>): comparing a string with itself gives 0; comparing two empty strings
  gives 0; an empty left string against a non-empty right string gives a negative
  result; a non-empty left string against an empty right string gives a positive result.
\<close>

theorem C9_base_cases:
  "versionCompare cs v v e dp cr rp = Some 0 \<and>
   versionCompare cs [] [] e dp cr rp = Some 0 \<and>
   (r \<noteq> [] \<longrightarrow> (\<exists>x. versionCompare cs [] r e dp cr rp = Some x \<and> x < 0)) \<and>
   (l \<noteq> [] \<longrightarrow> (\<exists>x. versionCompare cs l [] e dp cr rp = Some x \<and> 0 < x))"
  by (simp add: versionCompare_def)

theorem C9_base_cases_witness:
  "versionCompare True ''1.0~rc1'' ''1.0~rc1'' True True True True = Some 0 \<and>
   versionCompare True [] [] True True True True = Some 0 \<and>
   (''x'' \<noteq> [] \<and> (\<exists>x. versionCompare True [] ''x'' True True True True = Some x \<and> x < 0)) \<and>
   (''x'' \<noteq> [] \<and> (\<exists>x. versionCompare True ''x'' [] True True True True = Some x \<and> 0 < x))"
  using C9_base_cases [of True "''1.0~rc1''" True True True True "''x''" "''x''"] by simp

text \<open>
  Claim C10. Under the preconditions of the remainder resolver (both strings non-empty,
  lengths unequal, \<open>pos\<close> the shorter length), the byte read at \<open>pos\<close> lies inside
  the longer string, \<open>pos\<close> is at least 1, and the byte read at \<open>pos - 1\<close> for the
  digit check lies inside the shorter string; neither block of \<open>compareRemainder\<close>
  reaches an out-of-range read, so \<open>compareRemainder\<close> returns a value, and so does
  \<open>versionCompare\<close>.
\<close>

theorem C10_remainder_reads_in_range:
  assumes "l \<noteq> []" and "r \<noteq> []" and "length l \<noteq> length r"
    and "pos = min (length l) (length r)"
  shows "(length l = pos \<longrightarrow>
            at r pos = Some (r ! pos) \<and> 1 \<le> pos \<and> at l (pos - 1) = Some (l ! (pos - 1))) \<and>
         (length r = pos \<longrightarrow>
            at l pos = Some (l ! pos) \<and> 1 \<le> pos \<and> at r (pos - 1) = Some (r ! (pos - 1))) \<and>
         remainder_left_short cs l r pos diff rp \<noteq> Out_of_range \<and>
         remainder_right_short cs l r pos diff rp \<noteq> Out_of_range \<and>
         (\<exists>v. compareRemainder cs l r pos diff cr rp = Some v) \<and>
         (\<exists>v. versionCompare cs l r e dp cr rp = Some v)"
proof -
  have reads: "(length l = pos \<longrightarrow>
            at r pos = Some (r ! pos) \<and> 1 \<le> pos \<and> at l (pos - 1) = Some (l ! (pos - 1))) \<and>
         (length r = pos \<longrightarrow>
            at l pos = Some (l ! pos) \<and> 1 \<le> pos \<and> at r (pos - 1) = Some (r ! (pos - 1)))"
  proof -
    have "0 < length l" "0 < length r" using assms(1,2) by simp_all
    with assms(3,4) have "length l = pos \<longrightarrow> pos < length r \<and> 1 \<le> pos \<and> pos - 1 < length l"
      and "length r = pos \<longrightarrow> pos < length l \<and> 1 \<le> pos \<and> pos - 1 < length r"
      by linarith+
    then show ?thesis by (simp add: at_def)
  qed
  show ?thesis
    using reads remainder_left_short_in_range [OF assms(1,3,4), of cs diff rp]
      remainder_right_short_in_range [OF assms(2,3,4), of cs diff rp]
      compareRemainder_total [OF assms, of cs diff cr rp]
      versionCompare_total [of cs l r e dp cr rp]
    by blast
qed

theorem C10_remainder_reads_in_range_witness:
  "''1.0'' \<noteq> [] \<and> ''1.0.1'' \<noteq> [] \<and> length ''1.0'' \<noteq> length ''1.0.1'' \<and>
   (3::nat) = min (length ''1.0'') (length ''1.0.1'') \<and>
   at ''1.0.1'' 3 = Some CHR ''.'' \<and> at ''1.0'' 2 = Some CHR ''0'' \<and>
   remainder_left_short True ''1.0'' ''1.0.1'' 3 5 True \<noteq> Out_of_range \<and>
   (\<exists>v. compareRemainder True ''1.0'' ''1.0.1'' 3 5 True True = Some v) \<and>
   (\<exists>v. versionCompare True ''1.0'' ''1.0.1'' True True True True = Some v)"
  using C10_remainder_reads_in_range [of "''1.0''" "''1.0.1''" 3 True 5 True True True True]
  by simp

end
